theory Spec2Isabelle
  imports Main
begin

section \<open>The Python values that app.py works with\<close>

text \<open>
  \<^verbatim>\<open>app.py\<close> is a Flask form handler around one function, \<^verbatim>\<open>create_features\<close>.
  It relies on three services of the Python runtime: \<^verbatim>\<open>datetime.strptime\<close> with the
  format \<^verbatim>\<open>'%Y-%m-%d'\<close>, the \<^verbatim>\<open>tm_yday\<close> field of \<^verbatim>\<open>datetime.timetuple()\<close>
  and the subtraction of two datetime objects.  These are embedded first, following
  CPython's \<^verbatim>\<open>_strptime.py\<close> and \<^verbatim>\<open>datetime.py\<close>; the functions of
  \<^verbatim>\<open>app.py\<close> come after them.

  Python's integers are unbounded, so they are \<^typ>\<open>int\<close>; \<^verbatim>\<open>//\<close> and \<^verbatim>\<open>%\<close> round
  towards minus infinity, as \<open>div\<close> and \<open>mod\<close> do on \<^typ>\<open>int\<close>.  Strings are
  \<^typ>\<open>string\<close>: the code points below 256, among which the decimal digits that
  \<^verbatim>\<open>\d\<close> matches are exactly \<^verbatim>\<open>0\<close> to \<^verbatim>\<open>9\<close>.  Exceptions are values.
\<close>

datatype py_exception =
  ValueError | TypeError | OverflowError | IndexError | OtherException string

text \<open>A naive \<^verbatim>\<open>datetime.datetime\<close> object (no tzinfo).\<close>

record datetime =
  year :: int
  month :: int
  day :: int
  hour :: int
  minute :: int
  second :: int
  microsecond :: int

text \<open>A normalised \<^verbatim>\<open>datetime.timedelta\<close>.\<close>

record timedelta =
  days :: int
  seconds :: int
  microseconds :: int

subsection \<open>Calendar arithmetic of datetime.py\<close>

definition DAYS_IN_MONTH :: "int list" where
  "DAYS_IN_MONTH = [-1, 31, 28, 31, 30, 31, 30, 31, 31, 30, 31, 30, 31]"

text \<open>
  \<^verbatim>\<open>_DAYS_BEFORE_MONTH\<close> is built by a loop over \<^verbatim>\<open>_DAYS_IN_MONTH[1:]\<close> that appends
  the running sum \<^verbatim>\<open>dbm\<close> before adding the month's length to it.
\<close>

fun days_before_month_loop :: "int list \<Rightarrow> int \<Rightarrow> int list \<Rightarrow> int list" where
  "days_before_month_loop acc dbm [] = acc"
| "days_before_month_loop acc dbm (dim # rest) =
     days_before_month_loop (acc @ [dbm]) (dbm + dim) rest"

definition DAYS_BEFORE_MONTH :: "int list" where
  "DAYS_BEFORE_MONTH = days_before_month_loop [-1] 0 (tl DAYS_IN_MONTH)"

definition is_leap :: "int \<Rightarrow> bool" where
  "is_leap y = (y mod 4 = 0 \<and> (y mod 100 \<noteq> 0 \<or> y mod 400 = 0))"

definition days_before_year :: "int \<Rightarrow> int" where
  "days_before_year y0 = (let y = y0 - 1 in y * 365 + y div 4 - y div 100 + y div 400)"

text \<open>
  The two functions below index the tables with the month; their callers have checked
  \<open>1 \<le> m \<le> 12\<close> before (the source asserts it).
\<close>

definition days_in_month :: "int \<Rightarrow> int \<Rightarrow> int" where
  "days_in_month y m = (if m = 2 \<and> is_leap y then 29 else DAYS_IN_MONTH ! nat m)"

definition days_before_month :: "int \<Rightarrow> int \<Rightarrow> int" where
  "days_before_month y m =
     DAYS_BEFORE_MONTH ! nat m + (if m > 2 \<and> is_leap y then 1 else 0)"

definition ymd2ord :: "int \<Rightarrow> int \<Rightarrow> int \<Rightarrow> int" where
  "ymd2ord y m d = days_before_year y + days_before_month y m + d"

definition MINYEAR :: int where "MINYEAR = 1"
definition MAXYEAR :: int where "MAXYEAR = 9999"

definition check_date_fields :: "int \<Rightarrow> int \<Rightarrow> int \<Rightarrow> py_exception + (int \<times> int \<times> int)" where
  "check_date_fields y m d =
     (if \<not> (MINYEAR \<le> y \<and> y \<le> MAXYEAR) then Inl ValueError
      else if \<not> (1 \<le> m \<and> m \<le> 12) then Inl ValueError
      else let dim = days_in_month y m in
        if \<not> (1 \<le> d \<and> d \<le> dim) then Inl ValueError
        else Inr (y, m, d))"

text \<open>\<^verbatim>\<open>datetime.toordinal()\<close>.\<close>

definition toordinal :: "datetime \<Rightarrow> int" where
  "toordinal dt = ymd2ord (year dt) (month dt) (day dt)"

text \<open>
  \<^verbatim>\<open>datetime.timetuple().tm_yday\<close>: \<^verbatim>\<open>_build_struct_time\<close> computes it as
  \<^verbatim>\<open>_days_before_month(y, m) + d\<close>.
\<close>

definition tm_yday :: "datetime \<Rightarrow> int" where
  "tm_yday dt = days_before_month (year dt) (month dt) + day dt"

text \<open>
  The \<^verbatim>\<open>timedelta\<close> constructor on days, seconds and microseconds: it carries with
  \<^verbatim>\<open>divmod\<close> from microseconds to seconds to days, and raises \<^verbatim>\<open>OverflowError\<close>
  when the magnitude of the days exceeds 999999999.
\<close>

definition mk_timedelta :: "int \<Rightarrow> int \<Rightarrow> int \<Rightarrow> py_exception + timedelta" where
  "mk_timedelta d s us =
     (let s1 = s + us div 1000000;
          us1 = us mod 1000000;
          d1 = d + s1 div 86400;
          s2 = s1 mod 86400
      in if abs d1 > 999999999 then Inl OverflowError
         else Inr \<lparr>days = d1, seconds = s2, microseconds = us1\<rparr>)"

text \<open>\<^verbatim>\<open>datetime.__sub__\<close> for two naive datetime objects.\<close>

definition datetime_sub :: "datetime \<Rightarrow> datetime \<Rightarrow> py_exception + timedelta" where
  "datetime_sub a b =
     (let days1 = toordinal a;
          days2 = toordinal b;
          secs1 = second a + minute a * 60 + hour a * 3600;
          secs2 = second b + minute b * 60 + hour b * 3600
      in mk_timedelta (days1 - days2) (secs1 - secs2) (microsecond a - microsecond b))"

text \<open>The class invariant of a datetime object: what its constructor checks.\<close>

definition wf_datetime :: "datetime \<Rightarrow> bool" where
  "wf_datetime dt =
     (MINYEAR \<le> year dt \<and> year dt \<le> MAXYEAR \<and> 1 \<le> month dt \<and> month dt \<le> 12 \<and>
      1 \<le> day dt \<and> day dt \<le> days_in_month (year dt) (month dt) \<and>
      0 \<le> hour dt \<and> hour dt < 24 \<and> 0 \<le> minute dt \<and> minute dt < 60 \<and>
      0 \<le> second dt \<and> second dt < 60 \<and> 0 \<le> microsecond dt \<and> microsecond dt < 1000000)"

subsection \<open>The regular expression that strptime compiles from '%Y-%m-%d'\<close>

text \<open>
  \<^verbatim>\<open>_strptime\<close> turns the format into the pattern
  \<^verbatim>\<open>(?P<Y>\d\d\d\d)-(?P<m>1[0-2]|0[1-9]|[1-9])-(?P<d>3[0-1]|[1-2]\d|0[1-9]|[1-9]| [1-9])\<close>
  and calls \<^verbatim>\<open>match\<close> on the data string.  The pattern uses literals, classes,
  sequence and ordered alternatives only.  A backtracking matcher for that fragment lists
  the remainders of the input after each way of matching, in the order in which
  backtracking tries them.
\<close>

datatype rx = Lit char | Digit | Range char char | Seq rx rx | Alt rx rx

definition is_digit :: "char \<Rightarrow> bool" where
  "is_digit c = (48 \<le> (of_char c :: nat) \<and> (of_char c :: nat) \<le> 57)"

definition in_range :: "char \<Rightarrow> char \<Rightarrow> char \<Rightarrow> bool" where
  "in_range lo hi c = ((of_char lo :: nat) \<le> of_char c \<and> (of_char c :: nat) \<le> of_char hi)"

fun rx_match :: "rx \<Rightarrow> string \<Rightarrow> string list" where
  "rx_match (Lit c) s = (case s of [] \<Rightarrow> [] | x # xs \<Rightarrow> if x = c then [xs] else [])"
| "rx_match Digit s = (case s of [] \<Rightarrow> [] | x # xs \<Rightarrow> if is_digit x then [xs] else [])"
| "rx_match (Range lo hi) s =
     (case s of [] \<Rightarrow> [] | x # xs \<Rightarrow> if in_range lo hi x then [xs] else [])"
| "rx_match (Seq r1 r2) s = concat (map (rx_match r2) (rx_match r1 s))"
| "rx_match (Alt r1 r2) s = rx_match r1 s @ rx_match r2 s"

text \<open>A named group: each way of matching, with the text it captures.\<close>

definition rx_group :: "rx \<Rightarrow> string \<Rightarrow> (string \<times> string) list" where
  "rx_group r s = map (\<lambda>rest. (take (length s - length rest) s, rest)) (rx_match r s)"

definition rx_Y :: rx where
  "rx_Y = Seq Digit (Seq Digit (Seq Digit Digit))"

definition rx_m :: rx where
  "rx_m = Alt (Seq (Lit CHR ''1'') (Range CHR ''0'' CHR ''2''))
         (Alt (Seq (Lit CHR ''0'') (Range CHR ''1'' CHR ''9''))
              (Range CHR ''1'' CHR ''9''))"

definition rx_d :: rx where
  "rx_d = Alt (Seq (Lit CHR ''3'') (Range CHR ''0'' CHR ''1''))
         (Alt (Seq (Range CHR ''1'' CHR ''2'') Digit)
         (Alt (Seq (Lit CHR ''0'') (Range CHR ''1'' CHR ''9''))
         (Alt (Range CHR ''1'' CHR ''9'')
              (Seq (Lit CHR '' '') (Range CHR ''1'' CHR ''9'')))))"

text \<open>
  All the ways of matching the whole pattern, in backtracking order: the texts of the
  groups Y, m and d and the unmatched remainder.  \<^verbatim>\<open>match\<close> returns the first.
\<close>

definition format_regex_matches :: "string \<Rightarrow> (string \<times> string \<times> string \<times> string) list" where
  "format_regex_matches s =
     concat (map (\<lambda>(gY, r1).
       concat (map (\<lambda>r2.
         concat (map (\<lambda>(gm, r3).
           concat (map (\<lambda>r4.
             map (\<lambda>(gd, r5). (gY, gm, gd, r5)) (rx_group rx_d r4))
           (rx_match (Lit CHR ''-'') r3)))
         (rx_group rx_m r2)))
       (rx_match (Lit CHR ''-'') r1)))
     (rx_group rx_Y s))"

definition format_regex_match :: "string \<Rightarrow> (string \<times> string \<times> string \<times> string) option" where
  "format_regex_match s = (case format_regex_matches s of [] \<Rightarrow> None | x # _ \<Rightarrow> Some x)"

subsection \<open>int() on the text of a group\<close>

text \<open>
  \<^verbatim>\<open>int(text)\<close> strips surrounding blanks and reads decimal digits; anything else is a
  \<^verbatim>\<open>ValueError\<close>.  Signs and underscores, which \<^verbatim>\<open>int\<close> also reads, cannot occur in the
  text of a group of the pattern above and are not modelled.
\<close>

definition digit_value :: "char \<Rightarrow> int" where
  "digit_value c = int (of_char c) - 48"

definition strip :: "string \<Rightarrow> string" where
  "strip s = rev (dropWhile (\<lambda>c. c = CHR '' '') (rev (dropWhile (\<lambda>c. c = CHR '' '') s)))"

definition py_int :: "string \<Rightarrow> py_exception + int" where
  "py_int text =
     (let t = strip text
      in if t \<noteq> [] \<and> list_all is_digit t
         then Inr (foldl (\<lambda>acc c. 10 * acc + digit_value c) 0 t)
         else Inl ValueError)"

subsection \<open>datetime.strptime(data_string, '%Y-%m-%d')\<close>

text \<open>
  No match, unconverted data after the match, and a date that the date constructor
  refuses each raise \<^verbatim>\<open>ValueError\<close>.  The fields of the time of day keep their
  default 0.
\<close>

definition strptime :: "string \<Rightarrow> py_exception + datetime" where
  "strptime data_string =
     (case format_regex_match data_string of
        None \<Rightarrow> Inl ValueError
      | Some (gY, gm, gd, rest) \<Rightarrow>
          if rest \<noteq> [] then Inl ValueError
          else (case py_int gY of Inl e \<Rightarrow> Inl e | Inr y \<Rightarrow>
               (case py_int gm of Inl e \<Rightarrow> Inl e | Inr m \<Rightarrow>
               (case py_int gd of Inl e \<Rightarrow> Inl e | Inr d \<Rightarrow>
               (case check_date_fields y m d of Inl e \<Rightarrow> Inl e
                | Inr (y', m', d') \<Rightarrow>
                    Inr \<lparr>year = y', month = m', day = d',
                         hour = 0, minute = 0, second = 0, microsecond = 0\<rparr>)))))"

section \<open>app.py\<close>

text \<open>
  The module's globals are loaded once at start-up and never assigned again: the
  classifier \<^verbatim>\<open>model\<close> and the reference date \<^verbatim>\<open>start_date\<close>.  Neither file is in the
  repository, so both are parameters.  \<^verbatim>\<open>model.predict\<close> receives whatever
  \<^verbatim>\<open>create_features\<close> returned first and answers with a batch of labels or raises;
  \<^verbatim>\<open>start_date\<close> is a datetime object, as the subtraction requires.
\<close>

text \<open>
  The one-row \<^verbatim>\<open>pd.DataFrame\<close> that \<^verbatim>\<open>create_features\<close> builds: three columns, each
  the list it was given.
\<close>

record dataframe =
  Stage :: "string list"
  DayOfYear :: "int list"
  DaysSinceStart :: "int list"

record globals =
  model :: "dataframe option \<Rightarrow> py_exception + string list"
  start_date :: datetime

definition UNIQUE_STAGES :: "string list" where
  "UNIQUE_STAGES = [''Germination'', ''Seedling'', ''Vegetative Growth'',
     ''Tasseling & Pollination'', ''Grain Filling'', ''Maturity & Harvest'']"

text \<open>
  \<^verbatim>\<open>create_features\<close> returns a pair: the frame and \<^verbatim>\<open>None\<close>, or \<^verbatim>\<open>None\<close> and a
  message.  Only \<^verbatim>\<open>ValueError\<close> is caught around the parse; any other exception,
  and any exception of the subtraction, leaves the function.
\<close>

definition create_features ::
  "globals \<Rightarrow> string \<Rightarrow> string \<Rightarrow> py_exception + (dataframe option \<times> string option)" where
  "create_features g date_str stage =
     (case strptime date_str of
        Inl ValueError \<Rightarrow> Inr (None, Some ''Invalid date format. Please use YYYY-MM-DD.'')
      | Inl e \<Rightarrow> Inl e
      | Inr current_date \<Rightarrow>
          (let day_of_year = tm_yday current_date
           in case datetime_sub current_date (start_date g) of
                Inl e \<Rightarrow> Inl e
              | Inr delta \<Rightarrow>
                  (let days_since_start = days delta;
                       data = \<lparr>Stage = [stage], DayOfYear = [day_of_year],
                               DaysSinceStart = [days_since_start]\<rparr>
                   in Inr (Some data, None))))"

text \<open>
  The form of a request: \<^verbatim>\<open>request.form.get\<close> gives \<^verbatim>\<open>None\<close> for a field that was
  not sent.  A rendered page is the arguments given to \<^verbatim>\<open>render_template\<close> (the
  template itself is not in the repository).
\<close>

record form =
  date_input :: "string option"
  stage_input :: "string option"

record page =
  stages :: "string list"
  prediction_text :: string
  date_val :: "string option"
  stage_val :: "string option"

text \<open>Python's truth value of an optional string: \<^verbatim>\<open>None\<close> and \<^verbatim>\<open>''\<close> are false.\<close>

fun truthy :: "string option \<Rightarrow> bool" where
  "truthy None = False"
| "truthy (Some s) = (s \<noteq> [])"

text \<open>How an f-string shows an optional string.\<close>

fun fmt :: "string option \<Rightarrow> string" where
  "fmt None = ''None''"
| "fmt (Some s) = s"

text \<open>
  The calls a request makes, in order, are part of what the handler returns, so that
  "is never called" can be stated.
\<close>

datatype event =
  CallCreateFeatures string string
| CallModelPredict "dataframe option"

definition index :: "page" where
  "index = \<lparr>stages = UNIQUE_STAGES, prediction_text = [], date_val = None, stage_val = None\<rparr>"

text \<open>
  In \<^verbatim>\<open>predict\<close>, once the test of line 64 has failed both fields are non-empty
  strings; the \<open>case\<close> that follows only unpacks them, and its last line is never
  reached.  \<^verbatim>\<open>model.predict(X_new)[0]\<close> raises \<^verbatim>\<open>IndexError\<close> on an empty batch.
\<close>

definition predict :: "globals \<Rightarrow> form \<Rightarrow> event list \<times> (py_exception + page)" where
  "predict g req =
     (if \<not> truthy (date_input req) \<or> \<not> truthy (stage_input req)
      then ([], Inr \<lparr>stages = UNIQUE_STAGES,
                     prediction_text = ''Error: Please provide both date and stage.'',
                     date_val = date_input req, stage_val = stage_input req\<rparr>)
      else
        (case (date_input req, stage_input req) of
           (Some date_str, Some stage) \<Rightarrow>
             (case create_features g date_str stage of
                Inl e \<Rightarrow> ([CallCreateFeatures date_str stage], Inl e)
              | Inr (X_new, error_message) \<Rightarrow>
                  if truthy error_message
                  then ([CallCreateFeatures date_str stage],
                        Inr \<lparr>stages = UNIQUE_STAGES,
                             prediction_text = ''Error: '' @ fmt error_message,
                             date_val = date_input req, stage_val = stage_input req\<rparr>)
                  else
                    (case model g X_new of
                       Inl e \<Rightarrow>
                         ([CallCreateFeatures date_str stage, CallModelPredict X_new], Inl e)
                     | Inr [] \<Rightarrow>
                         ([CallCreateFeatures date_str stage, CallModelPredict X_new],
                          Inl IndexError)
                     | Inr (prediction # _) \<Rightarrow>
                         ([CallCreateFeatures date_str stage, CallModelPredict X_new],
                          Inr \<lparr>stages = UNIQUE_STAGES,
                               prediction_text =
                                 ''The predicted disease for stage '' @ [CHR 0x27] @ stage @
                                 [CHR 0x27] @ '' on '' @ date_str @ '' is: '' @ prediction,
                               date_val = date_input req, stage_val = stage_input req\<rparr>)))
         | _ \<Rightarrow> ([], Inl TypeError)))"

section \<open>Notions of the specification\<close>

text \<open>
  The specification speaks of calendar dates, of the ordinal day of a date within its
  year and of the number of days between two dates.  These are defined here from the
  rules of the Gregorian calendar, without the tables and closed formulas of
  \<^verbatim>\<open>datetime.py\<close>, so that the code can be compared with them.
\<close>

definition gregorian_leap :: "int \<Rightarrow> bool" where
  "gregorian_leap y = (4 dvd y \<and> (\<not> 100 dvd y \<or> 400 dvd y))"

definition month_length :: "int \<Rightarrow> int \<Rightarrow> int" where
  "month_length y m =
     (if m = 2 then (if gregorian_leap y then 29 else 28)
      else if m = 4 \<or> m = 6 \<or> m = 9 \<or> m = 11 then 30 else 31)"

definition year_length :: "int \<Rightarrow> int" where
  "year_length y = (if gregorian_leap y then 366 else 365)"

text \<open>The 1-based ordinal day: the days of the months before, and the day of the month.\<close>

definition ordinal_day_in_year :: "int \<Rightarrow> int \<Rightarrow> int \<Rightarrow> int" where
  "ordinal_day_in_year y m d = sum_list (map (month_length y) [1..m - 1]) + d"

text \<open>The number of a day, counting from 0001-01-01 as day 1.\<close>

definition day_number :: "datetime \<Rightarrow> int" where
  "day_number dt =
     sum_list (map year_length [1..year dt - 1]) +
     ordinal_day_in_year (year dt) (month dt) (day dt)"

text \<open>The order of calendar dates, and a datetime that is a calendar date (its time is 0).\<close>

definition date_before :: "datetime \<Rightarrow> datetime \<Rightarrow> bool" where
  "date_before a b =
     (year a < year b \<or>
      (year a = year b \<and> (month a < month b \<or> (month a = month b \<and> day a < day b))))"

definition same_date :: "datetime \<Rightarrow> datetime \<Rightarrow> bool" where
  "same_date a b = (year a = year b \<and> month a = month b \<and> day a = day b)"

definition midnight :: "datetime \<Rightarrow> bool" where
  "midnight dt = (hour dt = 0 \<and> minute dt = 0 \<and> second dt = 0 \<and> microsecond dt = 0)"

text \<open>\<open>contains s p\<close>: the text \<open>p\<close> occurs in \<open>s\<close>.\<close>

fun starts_with :: "string \<Rightarrow> string \<Rightarrow> bool" where
  "starts_with s [] = True"
| "starts_with [] (p # ps) = False"
| "starts_with (c # cs) (p # ps) = (c = p \<and> starts_with cs ps)"

fun contains :: "string \<Rightarrow> string \<Rightarrow> bool" where
  "contains [] p = (p = [])"
| "contains (c # cs) p = (starts_with (c # cs) p \<or> contains cs p)"

subsection \<open>The texts of a date\<close>

text \<open>
  The specification asks for a date in YYYY-MM-DD form: four digits, a hyphen, two
  digits, a hyphen, two digits.
\<close>

definition iso_form :: "string \<Rightarrow> bool" where
  "iso_form s =
     (length s = 10 \<and> list_all is_digit (take 4 s) \<and> s ! 4 = CHR ''-'' \<and>
      list_all is_digit (take 2 (drop 5 s)) \<and> s ! 7 = CHR ''-'' \<and>
      list_all is_digit (drop 8 s))"

text \<open>A calendar date of the years 1 to 9999.\<close>

definition valid_date :: "int \<Rightarrow> int \<Rightarrow> int \<Rightarrow> bool" where
  "valid_date y m d =
     (1 \<le> y \<and> y \<le> 9999 \<and> 1 \<le> m \<and> m \<le> 12 \<and> 1 \<le> d \<and> d \<le> month_length y m)"

text \<open>
  The ways of writing a date: the year with four digits; the month with two digits, or
  with one when it is below 10; the day with two digits, or when it is below 10 with one
  digit or with a blank and one digit.  \<open>iso_text\<close> is the first of them, the
  YYYY-MM-DD form.
\<close>

definition digit_char :: "int \<Rightarrow> char" where
  "digit_char n = ''0123456789'' ! nat n"

definition year_text :: "int \<Rightarrow> string" where
  "year_text y = [digit_char (y div 10 div 10 div 10), digit_char (y div 10 div 10 mod 10),
                  digit_char (y div 10 mod 10), digit_char (y mod 10)]"

definition two_digits :: "int \<Rightarrow> string" where
  "two_digits n = [digit_char (n div 10), digit_char (n mod 10)]"

definition month_texts :: "int \<Rightarrow> string list" where
  "month_texts m = (if m < 10 then [two_digits m, [digit_char m]] else [two_digits m])"

definition day_texts :: "int \<Rightarrow> string list" where
  "day_texts d =
     (if d < 10 then [two_digits d, [digit_char d], [CHR '' '', digit_char d]]
      else [two_digits d])"

definition date_texts :: "int \<Rightarrow> int \<Rightarrow> int \<Rightarrow> string list" where
  "date_texts y m d =
     concat (map (\<lambda>M. map (\<lambda>D. year_text y @ ''-'' @ M @ ''-'' @ D) (day_texts d))
                 (month_texts m))"

definition iso_text :: "int \<Rightarrow> int \<Rightarrow> int \<Rightarrow> string" where
  "iso_text y m d = year_text y @ ''-'' @ two_digits m @ ''-'' @ two_digits d"

text \<open>The texts that a pattern matches in full, whatever the order of the alternatives.\<close>

fun rx_lang :: "rx \<Rightarrow> string set" where
  "rx_lang (Lit c) = {[c]}"
| "rx_lang Digit = {[c] | c. is_digit c}"
| "rx_lang (Range lo hi) = {[c] | c. in_range lo hi c}"
| "rx_lang (Seq r1 r2) = {p @ q | p q. p \<in> rx_lang r1 \<and> q \<in> rx_lang r2}"
| "rx_lang (Alt r1 r2) = rx_lang r1 \<union> rx_lang r2"

subsection \<open>Examples\<close>

text \<open>
  Concrete globals for the examples: a classifier that answers every frame with one
  label, one that always raises, and the reference date 2024-01-01 of the specification's first scenario.
\<close>

definition stub_model :: "dataframe option \<Rightarrow> py_exception + string list" where
  "stub_model X = Inr [''Healthy'']"


definition date_2024_01_01 :: datetime where
  "date_2024_01_01 = \<lparr>year = 2024, month = 1, day = 1, hour = 0, minute = 0, second = 0,
     microsecond = 0\<rparr>"

definition example_globals :: globals where
  "example_globals = \<lparr>model = stub_model, start_date = date_2024_01_01\<rparr>"

section \<open>The calendar functions of datetime.py against the calendar's rules\<close>

lemma DAYS_BEFORE_MONTH_eq:
  "DAYS_BEFORE_MONTH = [-1, 0, 31, 59, 90, 120, 151, 181, 212, 243, 273, 304, 334]"
  by (simp add: DAYS_BEFORE_MONTH_def DAYS_IN_MONTH_def)

lemma month_cases:
  "1 \<le> m \<Longrightarrow> m \<le> 12 \<Longrightarrow>
   m = 1 \<or> m = 2 \<or> m = 3 \<or> m = 4 \<or> m = 5 \<or> m = 6 \<or>
   m = 7 \<or> m = 8 \<or> m = 9 \<or> m = 10 \<or> m = 11 \<or> m = (12::int)"
  by arith

lemma is_leap_gregorian: "is_leap y = gregorian_leap y"
  by (simp add: is_leap_def gregorian_leap_def dvd_eq_mod_eq_0)

lemma days_in_month_eq:
  assumes "1 \<le> m" "m \<le> 12"
  shows "days_in_month y m = month_length y m"
  using month_cases[OF assms]
  by (auto simp: days_in_month_def month_length_def DAYS_IN_MONTH_def is_leap_gregorian)

lemma days_before_month_eq:
  assumes "1 \<le> m" "m \<le> 12"
  shows "days_before_month y m = sum_list (map (month_length y) [1..m - 1])"
  using month_cases[OF assms]
  by (auto simp: days_before_month_def DAYS_BEFORE_MONTH_eq month_length_def
      is_leap_gregorian upto_rec1)

lemma tm_yday_eq:
  assumes "1 \<le> month dt" "month dt \<le> 12"
  shows "tm_yday dt = ordinal_day_in_year (year dt) (month dt) (day dt)"
  by (simp add: tm_yday_def ordinal_day_in_year_def days_before_month_eq[OF assms])

text \<open>Going from \<open>y - 1\<close> to \<open>y\<close>, a quotient by \<open>k\<close> grows exactly at the multiples of \<open>k\<close>.\<close>

lemma div_pred:
  fixes y k :: int
  assumes "0 < k"
  shows "(y - 1) div k = (if k dvd y then y div k - 1 else y div k)"
proof (cases "y mod k = 0")
  case True
  have "k * (y div k) = y"
    using mult_div_mod_eq[of k y] True by simp
  then have "y - 1 = k * (y div k - 1) + (k - 1)"
    by (simp add: algebra_simps)
  then have "(y - 1) div k = y div k - 1"
    by (rule int_div_pos_eq) (use assms in simp_all)
  with True show ?thesis by (simp add: dvd_eq_mod_eq_0)
next
  case False
  have r: "0 < y mod k" "y mod k < k"
    using assms False pos_mod_sign[of k y] pos_mod_bound[of k y] by linarith+
  have "y - 1 = k * (y div k) + (y mod k - 1)"
    using mult_div_mod_eq[of k y] by simp
  then have "(y - 1) div k = y div k"
    by (rule int_div_pos_eq) (use r in simp_all)
  with False show ?thesis by (simp add: dvd_eq_mod_eq_0)
qed

lemma dvd_400_100: "400 dvd y \<Longrightarrow> 100 dvd y" for y :: int
  by (rule dvd_trans[of 100 400 y]) simp_all

lemma dvd_100_4: "100 dvd y \<Longrightarrow> 4 dvd y" for y :: int
  by (rule dvd_trans[of 4 100 y]) simp_all

lemma days_before_year_step:
  "days_before_year (y + 1) = days_before_year y + year_length y"
  using dvd_400_100[of y] dvd_100_4[of y]
  by (auto simp: days_before_year_def year_length_def gregorian_leap_def
      div_pred[of 4 y] div_pred[of 100 y] div_pred[of 400 y])

lemma days_before_year_eq:
  "1 \<le> y \<Longrightarrow> days_before_year y = sum_list (map year_length [1..y - 1])"
proof (induction y rule: int_ge_induct)
  case base
  show ?case by (simp add: days_before_year_def)
next
  case (step i)
  have "[1..i + 1 - 1] = [1..i - 1] @ [i]"
    using step.hyps upto_rec2[of 1 i] by simp
  then show ?case
    using step.IH days_before_year_step[of i] by simp
qed

lemma days_before_year_mono:
  "y \<le> y' \<Longrightarrow> days_before_year y \<le> days_before_year y'"
proof (induction y' rule: int_ge_induct)
  case base
  show ?case by simp
next
  case (step i)
  have "0 \<le> year_length i" by (simp add: year_length_def)
  then show ?case using step.IH days_before_year_step[of i] by simp
qed

lemma days_before_year_1: "days_before_year 1 = 0"
  by (simp add: days_before_year_def)

lemma days_before_year_10000: "days_before_year 10000 = 3652059"
  by (simp add: days_before_year_def)

lemma days_before_month_step:
  assumes "1 \<le> m" "m \<le> 12"
  shows "days_before_month y m + days_in_month y m =
         (if m = 12 then year_length y else days_before_month y (m + 1))"
  using month_cases[OF assms]
  by (auto simp: days_before_month_def DAYS_BEFORE_MONTH_eq days_in_month_def DAYS_IN_MONTH_def
      year_length_def is_leap_gregorian)

lemma days_in_month_nonneg:
  assumes "1 \<le> m" "m \<le> 12"
  shows "0 \<le> days_in_month y m"
  using month_cases[OF assms] by (auto simp: days_in_month_def DAYS_IN_MONTH_def)

lemma days_before_month_nonneg:
  assumes "1 \<le> m" "m \<le> 12"
  shows "0 \<le> days_before_month y m"
  using month_cases[OF assms]
  by (auto simp: days_before_month_def DAYS_BEFORE_MONTH_eq)

lemma days_before_month_mono:
  assumes "1 \<le> m" "m \<le> m'" "m' \<le> 12"
  shows "days_before_month y m \<le> days_before_month y m'"
  using assms(2,1,3)
proof (induction m' rule: int_ge_induct)
  case base
  show ?case by simp
next
  case (step i)
  have i: "1 \<le> i" "i \<le> 12" "i \<noteq> 12" using step by auto
  then show ?case
    using days_before_month_step[of i y] days_in_month_nonneg[of i y] step by simp
qed

lemma days_before_month_le_year:
  assumes "1 \<le> m" "m \<le> 12"
  shows "days_before_month y m + days_in_month y m \<le> year_length y"
  using month_cases[OF assms]
  by (auto simp: days_before_month_def DAYS_BEFORE_MONTH_eq days_in_month_def DAYS_IN_MONTH_def
      year_length_def is_leap_gregorian)

lemma toordinal_day_number:
  assumes "wf_datetime a"
  shows "toordinal a = day_number a"
  using assms
  by (simp add: wf_datetime_def MINYEAR_def toordinal_def ymd2ord_def day_number_def
      ordinal_day_in_year_def days_before_year_eq days_before_month_eq)

subsection \<open>The ordinal follows the order of the dates\<close>

lemma toordinal_less:
  assumes "wf_datetime a" "wf_datetime b" "date_before a b"
  shows "toordinal a < toordinal b"
proof -
  have a: "1 \<le> month a" "month a \<le> 12" "1 \<le> day a"
    "day a \<le> days_in_month (year a) (month a)"
    using assms(1) by (simp_all add: wf_datetime_def)
  have b: "1 \<le> month b" "month b \<le> 12" "1 \<le> day b"
    using assms(2) by (simp_all add: wf_datetime_def)
  consider (y) "year a < year b"
    | (m) "year a = year b" "month a < month b"
    | (d) "year a = year b" "month a = month b" "day a < day b"
    using assms(3) by (auto simp: date_before_def)
  then show ?thesis
  proof cases
    case y
    have "toordinal a \<le> days_before_year (year a) + year_length (year a)"
      using days_before_month_le_year[OF a(1,2), of "year a"] a(4)
      by (simp add: toordinal_def ymd2ord_def)
    also have "\<dots> = days_before_year (year a + 1)"
      by (simp add: days_before_year_step)
    also have "\<dots> \<le> days_before_year (year b)"
      using y by (intro days_before_year_mono) simp
    also have "\<dots> < toordinal b"
      using days_before_month_nonneg[OF b(1,2), of "year b"] b(3)
      by (simp add: toordinal_def ymd2ord_def)
    finally show ?thesis .
  next
    case m
    have "days_before_month (year a) (month a) + day a
            \<le> days_before_month (year a) (month a + 1)"
      using days_before_month_step[OF a(1,2), of "year a"] a(4) m(2) b(2) by auto
    also have "\<dots> \<le> days_before_month (year a) (month b)"
      using m(2) a(1) b(2) by (intro days_before_month_mono) simp_all
    finally show ?thesis
      using m(1) b(3) by (simp add: toordinal_def ymd2ord_def)
  next
    case d
    then show ?thesis by (simp add: toordinal_def ymd2ord_def)
  qed
qed

lemma date_trichotomy: "date_before a b \<or> same_date a b \<or> date_before b a"
  unfolding date_before_def same_date_def by arith

lemma toordinal_order:
  assumes "wf_datetime a" "wf_datetime b"
  shows "(toordinal a < toordinal b \<longleftrightarrow> date_before a b) \<and>
         (toordinal a = toordinal b \<longleftrightarrow> same_date a b) \<and>
         (toordinal b < toordinal a \<longleftrightarrow> date_before b a)"
proof -
  consider "date_before a b" | "same_date a b" | "date_before b a"
    using date_trichotomy[of a b] by blast
  then show ?thesis
  proof cases
    case 1
    then have "toordinal a < toordinal b"
      using assms toordinal_less by blast
    moreover have "\<not> same_date a b" "\<not> date_before b a"
      using 1 by (auto simp: date_before_def same_date_def)
    ultimately show ?thesis using 1 by simp
  next
    case 2
    then have "toordinal a = toordinal b"
      by (simp add: same_date_def toordinal_def)
    moreover have "\<not> date_before a b" "\<not> date_before b a"
      using 2 by (auto simp: date_before_def same_date_def)
    ultimately show ?thesis using 2 by simp
  next
    case 3
    then have "toordinal b < toordinal a"
      using assms toordinal_less by blast
    moreover have "\<not> same_date a b" "\<not> date_before a b"
      using 3 by (auto simp: date_before_def same_date_def)
    ultimately show ?thesis using 3 by simp
  qed
qed

lemma toordinal_bounds:
  assumes "wf_datetime a"
  shows "1 \<le> toordinal a \<and> toordinal a \<le> 3652059"
proof -
  have a: "1 \<le> year a" "year a \<le> 9999" "1 \<le> month a" "month a \<le> 12" "1 \<le> day a"
    "day a \<le> days_in_month (year a) (month a)"
    using assms by (simp_all add: wf_datetime_def MINYEAR_def MAXYEAR_def)
  have "0 \<le> days_before_year (year a)"
    using days_before_year_mono[of 1 "year a"] a(1) by (simp add: days_before_year_1)
  then have lo: "1 \<le> toordinal a"
    using days_before_month_nonneg[OF a(3,4), of "year a"] a(5)
    by (simp add: toordinal_def ymd2ord_def)
  have "toordinal a \<le> days_before_year (year a) + year_length (year a)"
    using days_before_month_le_year[OF a(3,4), of "year a"] a(6)
    by (simp add: toordinal_def ymd2ord_def)
  also have "\<dots> = days_before_year (year a + 1)"
    by (simp add: days_before_year_step)
  also have "\<dots> \<le> days_before_year 10000"
    using a(2) by (intro days_before_year_mono) simp
  finally show ?thesis using lo by (simp add: days_before_year_10000)
qed

lemma tm_yday_bounds:
  assumes "wf_datetime a"
  shows "1 \<le> tm_yday a \<and> tm_yday a \<le> year_length (year a)"
proof -
  have a: "1 \<le> month a" "month a \<le> 12" "1 \<le> day a"
    "day a \<le> days_in_month (year a) (month a)"
    using assms by (simp_all add: wf_datetime_def)
  show ?thesis
    using days_before_month_nonneg[OF a(1,2), of "year a"]
      days_before_month_le_year[OF a(1,2), of "year a"] a(3,4)
    by (simp add: tm_yday_def)
qed

subsection \<open>The difference of two datetime objects\<close>

lemma datetime_sub_midnight:
  assumes "wf_datetime a" "midnight a" "wf_datetime b" "midnight b"
  shows "datetime_sub a b =
           Inr \<lparr>days = toordinal a - toordinal b, seconds = 0, microseconds = 0\<rparr>"
proof -
  have "\<not> 999999999 < \<bar>toordinal a - toordinal b\<bar>"
    using toordinal_bounds[OF assms(1)] toordinal_bounds[OF assms(3)] by arith
  then show ?thesis
    using assms(2,4) by (simp add: datetime_sub_def mk_timedelta_def midnight_def Let_def)
qed

text \<open>The \<^verbatim>\<open>OverflowError\<close> of the timedelta constructor is out of reach of two datetimes.\<close>

lemma datetime_sub_total:
  assumes "wf_datetime a" "wf_datetime b"
  shows "\<exists>td. datetime_sub a b = Inr td"
proof -
  define s where
    "s = (second a + minute a * 60 + hour a * 3600) - (second b + minute b * 60 + hour b * 3600)"
  define u where "u = microsecond a - microsecond b"
  have "- 1000000 < u" "u < 1000000"
    using assms by (simp_all add: wf_datetime_def u_def)
  then have u: "- 1 \<le> u div 1000000" "u div 1000000 \<le> 0" by arith+
  have "- 86400 < s" "s < 86400"
    using assms by (simp_all add: wf_datetime_def s_def)
  then have "- 86400 \<le> s + u div 1000000" "s + u div 1000000 < 86400"
    using u by arith+
  then have "- 1 \<le> (s + u div 1000000) div 86400" "(s + u div 1000000) div 86400 \<le> 0"
    by arith+
  then have "\<bar>toordinal a - toordinal b + (s + u div 1000000) div 86400\<bar> \<le> 999999999"
    using toordinal_bounds[OF assms(1)] toordinal_bounds[OF assms(2)] by arith
  then show ?thesis
    by (simp add: datetime_sub_def mk_timedelta_def Let_def s_def u_def)
qed

text \<open>
  Against a datetime \<open>b\<close> that has a time of day, the days of the difference are
  rounded down: a date at midnight is one day less after \<open>b\<close> than after the date
  of \<open>b\<close>.
\<close>

lemma div_small_neg:
  fixes x n :: int
  assumes "- n \<le> x" "x < 0"
  shows "x div n = - 1"
  by (rule int_div_pos_eq[of x n "- 1" "x + n"]) (use assms in simp_all)

lemma datetime_sub_days:
  assumes "wf_datetime a" "midnight a" "wf_datetime b"
  shows "\<exists>td. datetime_sub a b = Inr td \<and>
           days td = toordinal a - toordinal b - (if midnight b then 0 else 1)"
proof -
  define s where "s = second b + minute b * 60 + hour b * 3600"
  define u where "u = microsecond b"
  have b: "0 \<le> hour b" "0 \<le> minute b" "0 \<le> second b" "hour b < 24" "minute b < 60"
    "second b < 60" "0 \<le> u" "u < 1000000"
    using assms(3) by (simp_all add: wf_datetime_def u_def)
  have sb: "0 \<le> s" "s < 86400"
    using b unfolding s_def by linarith+
  have "s = 0 \<longleftrightarrow> hour b = 0 \<and> minute b = 0 \<and> second b = 0"
    using b unfolding s_def by linarith
  then have mid: "midnight b \<longleftrightarrow> s = 0 \<and> u = 0"
    by (auto simp: midnight_def u_def)
  define c where "c = (- u) div 1000000"
  have c: "c = (if u = 0 then 0 else - 1)"
  proof (cases "u = 0")
    case True
    then show ?thesis by (simp add: c_def)
  next
    case False
    then have "(- u) div 1000000 = - 1"
      using b(7,8) by (intro div_small_neg) simp_all
    then show ?thesis using False by (simp add: c_def)
  qed
  define t where "t = - s + c"
  have t: "- 86400 \<le> t" "t \<le> 0" "t = 0 \<longleftrightarrow> s = 0 \<and> u = 0"
    using sb c unfolding t_def by (auto split: if_splits)
  define k where "k = t div 86400"
  have k: "k = (if midnight b then 0 else - 1)"
  proof (cases "t = 0")
    case True
    then show ?thesis using mid t(3) by (simp add: k_def)
  next
    case False
    then have "t div 86400 = - 1"
      using t(1,2) by (intro div_small_neg) simp_all
    then show ?thesis using False mid t(3) by (simp add: k_def)
  qed
  have bound: "\<not> 999999999 < \<bar>toordinal a - toordinal b + k\<bar>"
    using toordinal_bounds[OF assms(1)] toordinal_bounds[OF assms(3)] k by (auto split: if_splits)
  have "datetime_sub a b =
      mk_timedelta (toordinal a - toordinal b) (- s) (- u)"
    using assms(2) by (simp add: datetime_sub_def midnight_def s_def u_def Let_def)
  also have "\<dots> = Inr \<lparr>days = toordinal a - toordinal b + k, seconds = t mod 86400,
      microseconds = (- u) mod 1000000\<rparr>"
    using bound by (simp add: mk_timedelta_def Let_def k_def t_def c_def)
  finally show ?thesis
    using k by auto
qed

section \<open>What strptime returns\<close>

lemma check_date_fields_Inl: "check_date_fields y m d = Inl e \<Longrightarrow> e = ValueError"
  by (auto simp: check_date_fields_def Let_def split: if_splits)

lemma check_date_fields_Inr:
  "check_date_fields y m d = Inr r \<Longrightarrow>
     r = (y, m, d) \<and> 1 \<le> y \<and> y \<le> 9999 \<and> 1 \<le> m \<and> m \<le> 12 \<and>
     1 \<le> d \<and> d \<le> days_in_month y m"
  by (auto simp: check_date_fields_def Let_def MINYEAR_def MAXYEAR_def split: if_splits)

lemma py_int_Inl: "py_int t = Inl e \<Longrightarrow> e = ValueError"
  by (auto simp: py_int_def Let_def split: if_splits)

text \<open>\<^verbatim>\<open>ValueError\<close> is the only exception of the parse.\<close>

lemma strptime_Inl: "strptime s = Inl e \<Longrightarrow> e = ValueError"
  by (auto simp: strptime_def split: option.splits if_splits sum.splits prod.splits
      dest: py_int_Inl check_date_fields_Inl)

text \<open>A parsed date is a datetime object at midnight.\<close>

lemma strptime_Inr:
  assumes "strptime s = Inr dt"
  shows "wf_datetime dt \<and> midnight dt"
  using assms
  by (auto simp: strptime_def wf_datetime_def midnight_def MINYEAR_def MAXYEAR_def
      split: option.splits if_splits sum.splits prod.splits
      dest!: check_date_fields_Inr)

lemma strptime_empty: "strptime [] = Inl ValueError"
  by code_simp

section \<open>Which strings strptime accepts\<close>

text \<open>
  \<^verbatim>\<open>strptime\<close> with \<^verbatim>\<open>'%Y-%m-%d'\<close> accepts exactly the texts of the valid dates:
  every way of writing a date listed by \<open>date_texts\<close> parses to that date, and
  nothing else parses.  First the digits, then each group of the pattern, then the whole.
\<close>

lemma digit_cases:
  "0 \<le> k \<Longrightarrow> k \<le> 9 \<Longrightarrow>
   k = 0 \<or> k = 1 \<or> k = 2 \<or> k = 3 \<or> k = 4 \<or> k = 5 \<or> k = 6 \<or> k = 7 \<or> k = 8 \<or> k = (9::int)"
  by arith

lemma digit_char_props:
  assumes "0 \<le> k" "k \<le> 9"
  shows "is_digit (digit_char k)" "digit_value (digit_char k) = k"
    "digit_char k \<noteq> CHR ''-''" "digit_char k \<noteq> CHR '' ''"
  using digit_cases[OF assms]
  by (auto simp: digit_char_def is_digit_def digit_value_def)

lemma char_of_digit_codes:
  "char_of (48::nat) = CHR ''0''" "char_of (49::nat) = CHR ''1''" "char_of (50::nat) = CHR ''2''"
  "char_of (51::nat) = CHR ''3''" "char_of (52::nat) = CHR ''4''" "char_of (53::nat) = CHR ''5''"
  "char_of (54::nat) = CHR ''6''" "char_of (55::nat) = CHR ''7''" "char_of (56::nat) = CHR ''8''"
  "char_of (57::nat) = CHR ''9''"
  by code_simp+

lemma is_digit_cases:
  assumes "is_digit c"
  shows "c = CHR ''0'' \<or> c = CHR ''1'' \<or> c = CHR ''2'' \<or> c = CHR ''3'' \<or> c = CHR ''4'' \<or>
         c = CHR ''5'' \<or> c = CHR ''6'' \<or> c = CHR ''7'' \<or> c = CHR ''8'' \<or> c = CHR ''9''"
proof -
  define n where "n = (of_char c :: nat)"
  have c: "c = char_of n" by (simp add: n_def)
  have "48 \<le> n" "n \<le> 57" using assms by (simp_all add: is_digit_def n_def)
  then have "n = 48 \<or> n = 49 \<or> n = 50 \<or> n = 51 \<or> n = 52 \<or> n = 53 \<or> n = 54 \<or> n = 55 \<or>
      n = 56 \<or> n = 57" by arith
  then show ?thesis unfolding c using char_of_digit_codes by auto
qed

lemma is_digit_digit_char:
  assumes "is_digit c"
  shows "0 \<le> digit_value c \<and> digit_value c \<le> 9 \<and> digit_char (digit_value c) = c"
  using is_digit_cases[OF assms]
  by (auto simp: digit_value_def digit_char_def)

lemma of_char_digit_codes:
  "of_char CHR ''0'' = (48::nat)" "of_char CHR ''1'' = (49::nat)" "of_char CHR ''2'' = (50::nat)"
  "of_char CHR ''3'' = (51::nat)" "of_char CHR ''4'' = (52::nat)" "of_char CHR ''5'' = (53::nat)"
  "of_char CHR ''6'' = (54::nat)" "of_char CHR ''7'' = (55::nat)" "of_char CHR ''8'' = (56::nat)"
  "of_char CHR ''9'' = (57::nat)"
  by code_simp+

lemma char_code_cases:
  fixes c :: char
  assumes "lo \<le> (of_char c :: nat)" "(of_char c :: nat) \<le> hi"
  shows "c \<in> set (map char_of [lo..<Suc hi])"
proof -
  have "(of_char c :: nat) \<in> {lo..<Suc hi}"
    using assms by auto
  then have "char_of (of_char c :: nat) \<in> char_of ` {lo..<Suc hi}"
    by (rule imageI)
  then have "c \<in> char_of ` {lo..<Suc hi}"
    by (simp only: char_of_char)
  then show ?thesis
    by (simp only: set_map set_upt)
qed

lemma chars_49_57: "map char_of [49..<Suc 57] = ''123456789''"
  by code_simp

lemma in_range_1_9_cases:
  assumes "in_range CHR ''1'' CHR ''9'' c"
  shows "c \<in> set ''123456789''"
  using char_code_cases[of 49 c 57] assms
  unfolding in_range_def of_char_digit_codes chars_49_57 by blast

lemma chars_48_50: "map char_of [48..<Suc 50] = ''012''"
  by code_simp

lemma chars_48_49: "map char_of [48..<Suc 49] = ''01''"
  by code_simp

lemma chars_49_50: "map char_of [49..<Suc 50] = ''12''"
  by code_simp

lemma chars_48_57: "map char_of [48..<Suc 57] = ''0123456789''"
  by code_simp

lemma in_range_0_2_cases:
  assumes "in_range CHR ''0'' CHR ''2'' c"
  shows "c \<in> set ''012''"
  using char_code_cases[of 48 c 50] assms
  unfolding in_range_def of_char_digit_codes chars_48_50 by blast

lemma in_range_0_1_cases:
  assumes "in_range CHR ''0'' CHR ''1'' c"
  shows "c \<in> set ''01''"
  using char_code_cases[of 48 c 49] assms
  unfolding in_range_def of_char_digit_codes chars_48_49 by blast

lemma in_range_1_2_cases:
  assumes "in_range CHR ''1'' CHR ''2'' c"
  shows "c \<in> set ''12''"
  using char_code_cases[of 49 c 50] assms
  unfolding in_range_def of_char_digit_codes chars_49_50 by blast

lemma is_digit_cases2:
  assumes "is_digit c"
  shows "c \<in> set ''0123456789''"
  using char_code_cases[of 48 c 57] assms
  unfolding is_digit_def chars_48_57 by blast

lemma year_digits:
  fixes y :: int
  assumes "0 \<le> y" "y \<le> 9999"
  shows "0 \<le> y div 10 div 10 div 10" "y div 10 div 10 div 10 \<le> 9"
    "0 \<le> y div 10 div 10 mod 10" "y div 10 div 10 mod 10 \<le> 9"
    "0 \<le> y div 10 mod 10" "y div 10 mod 10 \<le> 9"
    "0 \<le> y mod 10" "y mod 10 \<le> 9"
proof -
  have a: "0 \<le> y div 10" "y div 10 \<le> 999" using assms by arith+
  then have b: "0 \<le> y div 10 div 10" "y div 10 div 10 \<le> 99" by arith+
  then show "0 \<le> y div 10 div 10 div 10" "y div 10 div 10 div 10 \<le> 9" by arith+
  show "0 \<le> y div 10 div 10 mod 10" "y div 10 div 10 mod 10 \<le> 9"
    "0 \<le> y div 10 mod 10" "y div 10 mod 10 \<le> 9"
    "0 \<le> y mod 10" "y mod 10 \<le> 9" by simp_all
qed

lemma year_digits_value:
  "((y div 10 div 10 div 10 * 10 + y div 10 div 10 mod 10) * 10 + y div 10 mod 10) * 10
     + y mod 10 = y" for y :: int
  by (simp add: algebra_simps)

lemma year_text_split:
  assumes "0 \<le> y" "y \<le> 9999"
  obtains a b c e where
    "year_text y = [digit_char a, digit_char b, digit_char c, digit_char e]"
    "0 \<le> a" "a \<le> 9" "0 \<le> b" "b \<le> 9" "0 \<le> c" "c \<le> 9" "0 \<le> e" "e \<le> 9"
    "10 * (10 * (10 * a + b) + c) + e = y"
proof
  show "year_text y = [digit_char (y div 10 div 10 div 10), digit_char (y div 10 div 10 mod 10),
      digit_char (y div 10 mod 10), digit_char (y mod 10)]"
    by (simp only: year_text_def)
  show "10 * (10 * (10 * (y div 10 div 10 div 10) + y div 10 div 10 mod 10) + y div 10 mod 10)
      + y mod 10 = y"
    using year_digits_value[of y] by (simp only: mult.commute)
qed (use year_digits[OF assms] in blast)+

lemma rx_group_Y_digits:
  assumes "is_digit a" "is_digit b" "is_digit c" "is_digit e"
  shows "rx_group rx_Y (a # b # c # e # r) = [([a, b, c, e], r)]"
  using assms by (simp add: rx_group_def rx_Y_def)

lemma rx_group_Y_year_text:
  assumes "0 \<le> y" "y \<le> 9999"
  shows "rx_group rx_Y (year_text y @ r) = [(year_text y, r)]"
proof -
  obtain a b c e where t: "year_text y = [digit_char a, digit_char b, digit_char c, digit_char e]"
    and d: "0 \<le> a" "a \<le> 9" "0 \<le> b" "b \<le> 9" "0 \<le> c" "c \<le> 9" "0 \<le> e" "e \<le> 9"
    using year_text_split[OF assms] by metis
  show ?thesis
    unfolding t using rx_group_Y_digits[of "digit_char a" "digit_char b" "digit_char c" "digit_char e" r] d
    by (simp add: digit_char_props)
qed

lemma py_int_digits4:
  assumes "is_digit a" "is_digit b" "is_digit c" "is_digit e"
  shows "py_int [a, b, c, e] =
    Inr (10 * (10 * (10 * digit_value a + digit_value b) + digit_value c) + digit_value e)"
proof -
  have "e \<noteq> CHR '' ''" "a \<noteq> CHR '' ''"
    using assms by (auto simp: is_digit_def)
  then show ?thesis
    using assms by (simp add: py_int_def strip_def Let_def)
qed

lemma py_int_year_text:
  assumes "0 \<le> y" "y \<le> 9999"
  shows "py_int (year_text y) = Inr y"
proof -
  obtain a b c e where t: "year_text y = [digit_char a, digit_char b, digit_char c, digit_char e]"
    and d: "0 \<le> a" "a \<le> 9" "0 \<le> b" "b \<le> 9" "0 \<le> c" "c \<le> 9" "0 \<le> e" "e \<le> 9"
    and v: "10 * (10 * (10 * a + b) + c) + e = y"
    using year_text_split[OF assms] by metis
  show ?thesis
    unfolding t
    using py_int_digits4[of "digit_char a" "digit_char b" "digit_char c" "digit_char e"] d v
    by (simp add: digit_char_props)
qed

lemma rx_group_m_text:
  assumes "1 \<le> m" "m \<le> 12" "M \<in> set (month_texts m)"
  shows "concat (map (\<lambda>(gm, r3). concat (map (F gm) (rx_match (Lit CHR ''-'') r3)))
           (rx_group rx_m (M @ CHR ''-'' # r))) = F M r"
  using month_cases[OF assms(1,2)] assms(3)
  by (auto simp: month_texts_def two_digits_def digit_char_def rx_group_def rx_m_def in_range_def)

lemma month_texts_all:
  "list_all (\<lambda>m. list_all (\<lambda>M. py_int M = Inr m) (month_texts m)) [1..12]"
  by code_simp

lemma day_texts_all:
  "list_all (\<lambda>d. list_all (\<lambda>D. take 1 (rx_group rx_d D) = [(D, [])] \<and> py_int D = Inr d)
     (day_texts d)) [1..31]"
  by code_simp

lemma py_int_month_text:
  assumes "1 \<le> m" "m \<le> 12" "M \<in> set (month_texts m)"
  shows "py_int M = Inr m"
proof -
  have "m \<in> set [1..12]" using assms(1,2) by simp
  then show ?thesis
    using month_texts_all assms(3) unfolding list_all_iff by blast
qed

lemma day_text_props:
  assumes "1 \<le> d" "d \<le> 31" "D \<in> set (day_texts d)"
  shows "take 1 (rx_group rx_d D) = [(D, [])]" "py_int D = Inr d"
proof -
  have "d \<in> set [1..31]" using assms(1,2) by simp
  then show "take 1 (rx_group rx_d D) = [(D, [])]" "py_int D = Inr d"
    using day_texts_all assms(3) unfolding list_all_iff by blast+
qed

lemma take_1_eq: "take 1 xs = [x] \<Longrightarrow> xs = x # tl xs"
  by (cases xs) simp_all

lemma month_length_le_31: "month_length y m \<le> 31"
  by (simp add: month_length_def)

lemma format_regex_matches_date_text:
  assumes "0 \<le> y" "y \<le> 9999" "1 \<le> m" "m \<le> 12" "1 \<le> d" "d \<le> 31"
    and "M \<in> set (month_texts m)" "D \<in> set (day_texts d)"
  shows "format_regex_matches (year_text y @ CHR ''-'' # M @ CHR ''-'' # D) =
           (year_text y, M, D, []) #
           map (\<lambda>(gd, r5). (year_text y, M, gd, r5)) (tl (rx_group rx_d D))"
proof -
  have Y: "rx_group rx_Y (year_text y @ CHR ''-'' # M @ CHR ''-'' # D) =
      [(year_text y, CHR ''-'' # M @ CHR ''-'' # D)]"
    using rx_group_Y_year_text[OF assms(1,2)] .
  have Dg: "rx_group rx_d D = (D, []) # tl (rx_group rx_d D)"
    using day_text_props(1)[OF assms(5,6,8)] by (rule take_1_eq)
  have "format_regex_matches (year_text y @ CHR ''-'' # M @ CHR ''-'' # D) =
      concat (map (\<lambda>(gm, r3). concat (map
          (\<lambda>r4. map (\<lambda>(gd, r5). (year_text y, gm, gd, r5)) (rx_group rx_d r4))
          (rx_match (Lit CHR ''-'') r3)))
        (rx_group rx_m (M @ CHR ''-'' # D)))"
    unfolding format_regex_matches_def Y by simp
  also have "\<dots> = map (\<lambda>(gd, r5). (year_text y, M, gd, r5)) (rx_group rx_d D)"
    using rx_group_m_text[OF assms(3,4,7),
        of "\<lambda>gm r4. map (\<lambda>(gd, r5). (year_text y, gm, gd, r5)) (rx_group rx_d r4)" D] .
  also have "\<dots> = (year_text y, M, D, []) #
      map (\<lambda>(gd, r5). (year_text y, M, gd, r5)) (tl (rx_group rx_d D))"
    by (subst Dg) simp
  finally show ?thesis .
qed

lemma check_date_fields_valid:
  assumes "valid_date y m d"
  shows "check_date_fields y m d = Inr (y, m, d)"
  using assms days_in_month_eq[of m y]
  by (simp add: check_date_fields_def valid_date_def MINYEAR_def MAXYEAR_def Let_def)

lemma date_texts_iff:
  "s \<in> set (date_texts y m d) \<longleftrightarrow>
   (\<exists>M D. M \<in> set (month_texts m) \<and> D \<in> set (day_texts d) \<and>
      s = year_text y @ CHR ''-'' # M @ CHR ''-'' # D)"
  by (auto simp: date_texts_def)

lemma strptime_date_text:
  assumes "valid_date y m d" "s \<in> set (date_texts y m d)"
  shows "strptime s = Inr \<lparr>year = y, month = m, day = d, hour = 0, minute = 0, second = 0,
           microsecond = 0\<rparr>"
proof -
  have v: "1 \<le> y" "y \<le> 9999" "1 \<le> m" "m \<le> 12" "1 \<le> d" "d \<le> 31"
    using assms(1) month_length_le_31[of y m] by (auto simp: valid_date_def)
  obtain M D where MD: "M \<in> set (month_texts m)" "D \<in> set (day_texts d)"
    and s: "s = year_text y @ CHR ''-'' # M @ CHR ''-'' # D"
    using assms(2) date_texts_iff by blast
  have "0 \<le> y" using v(1) by simp
  then have "format_regex_match s = Some (year_text y, M, D, [])"
    unfolding s format_regex_match_def
    using format_regex_matches_date_text[OF _ v(2-6) MD] by simp
  moreover have "py_int (year_text y) = Inr y"
    using py_int_year_text[OF \<open>0 \<le> y\<close> v(2)] .
  moreover have "py_int M = Inr m"
    using py_int_month_text[OF v(3,4) MD(1)] .
  moreover have "py_int D = Inr d"
    using day_text_props(2)[OF v(5,6) MD(2)] .
  ultimately show ?thesis
    using check_date_fields_valid[OF assms(1)] by (simp add: strptime_def)
qed

lemma rx_match_sound:
  "r \<in> set (rx_match rx s) \<Longrightarrow> \<exists>p. s = p @ r \<and> p \<in> rx_lang rx"
proof (induction rx arbitrary: s r)
  case (Lit c)
  then show ?case by (cases s) (auto split: if_splits)
next
  case Digit
  then show ?case by (cases s) (auto split: if_splits)
next
  case (Range lo hi)
  then show ?case by (cases s) (auto split: if_splits)
next
  case (Seq r1 r2)
  then obtain mid where "mid \<in> set (rx_match r1 s)" "r \<in> set (rx_match r2 mid)"
    by auto
  then obtain p q where "s = p @ mid" "p \<in> rx_lang r1" "mid = q @ r" "q \<in> rx_lang r2"
    using Seq.IH by blast
  then have "s = (p @ q) @ r \<and> p @ q \<in> rx_lang (Seq r1 r2)" by auto
  then show ?case by blast
next
  case (Alt r1 r2)
  then have "r \<in> set (rx_match r1 s) \<or> r \<in> set (rx_match r2 s)" by simp
  then show ?case using Alt.IH by fastforce
qed

lemma rx_group_sound:
  assumes "(g, r) \<in> set (rx_group rx s)"
  shows "s = g @ r \<and> g \<in> rx_lang rx"
proof -
  have r: "r \<in> set (rx_match rx s)" and g: "g = take (length s - length r) s"
    using assms by (auto simp: rx_group_def)
  obtain p where "s = p @ r" "p \<in> rx_lang rx" using rx_match_sound[OF r] by blast
  then show ?thesis using g by simp
qed

lemma rx_lang_Y:
  assumes "g \<in> rx_lang rx_Y"
  shows "\<exists>a b c e. g = [a, b, c, e] \<and> is_digit a \<and> is_digit b \<and> is_digit c \<and> is_digit e"
  using assms by (auto simp: rx_Y_def)

lemma month_text_member:
  assumes "g \<in> set (concat (map month_texts [1..12]))"
  shows "\<exists>m. 1 \<le> m \<and> m \<le> 12 \<and> g \<in> set (month_texts m)"
proof -
  obtain m where "m \<in> set [1..12]" "g \<in> set (month_texts m)"
    using assms unfolding set_concat set_map by blast
  then show ?thesis by auto
qed

lemma month_shapes:
  "list_all (\<lambda>c. [CHR ''1'', c] \<in> set (concat (map month_texts [1..12]))) ''012''"
  "list_all (\<lambda>c. [CHR ''0'', c] \<in> set (concat (map month_texts [1..12]))) ''123456789''"
  "list_all (\<lambda>c. [c] \<in> set (concat (map month_texts [1..12]))) ''123456789''"
  by code_simp+

lemma rx_lang_m:
  assumes "g \<in> rx_lang rx_m"
  shows "\<exists>m. 1 \<le> m \<and> m \<le> 12 \<and> g \<in> set (month_texts m)"
proof -
  have "g \<in> rx_lang (Seq (Lit CHR ''1'') (Range CHR ''0'' CHR ''2'')) \<or>
        g \<in> rx_lang (Seq (Lit CHR ''0'') (Range CHR ''1'' CHR ''9'')) \<or>
        g \<in> rx_lang (Range CHR ''1'' CHR ''9'')"
    using assms by (simp add: rx_m_def)
  then have "g \<in> set (concat (map month_texts [1..12]))"
  proof (elim disjE)
    assume "g \<in> rx_lang (Seq (Lit CHR ''1'') (Range CHR ''0'' CHR ''2''))"
    then obtain c where "g = [CHR ''1'', c]" "in_range CHR ''0'' CHR ''2'' c" by auto
    then show ?thesis
      using in_range_0_2_cases[of c] month_shapes(1) unfolding list_all_iff by blast
  next
    assume "g \<in> rx_lang (Seq (Lit CHR ''0'') (Range CHR ''1'' CHR ''9''))"
    then obtain c where "g = [CHR ''0'', c]" "in_range CHR ''1'' CHR ''9'' c" by auto
    then show ?thesis
      using in_range_1_9_cases[of c] month_shapes(2) unfolding list_all_iff by blast
  next
    assume "g \<in> rx_lang (Range CHR ''1'' CHR ''9'')"
    then obtain c where "g = [c]" "in_range CHR ''1'' CHR ''9'' c" by auto
    then show ?thesis
      using in_range_1_9_cases[of c] month_shapes(3) unfolding list_all_iff by blast
  qed
  then show ?thesis
    by (rule month_text_member)
qed

lemma day_text_member:
  assumes "g \<in> set (concat (map day_texts [1..31]))"
  shows "\<exists>d. 1 \<le> d \<and> d \<le> 31 \<and> g \<in> set (day_texts d)"
proof -
  obtain d where "d \<in> set [1..31]" "g \<in> set (day_texts d)"
    using assms unfolding set_concat set_map by blast
  then show ?thesis by auto
qed

lemma day_shapes:
  "list_all (\<lambda>c. [CHR ''3'', c] \<in> set (concat (map day_texts [1..31]))) ''01''"
  "list_all (\<lambda>c. list_all (\<lambda>e. [c, e] \<in> set (concat (map day_texts [1..31]))) ''0123456789'')
     ''12''"
  "list_all (\<lambda>c. [CHR ''0'', c] \<in> set (concat (map day_texts [1..31]))) ''123456789''"
  "list_all (\<lambda>c. [c] \<in> set (concat (map day_texts [1..31]))) ''123456789''"
  "list_all (\<lambda>c. [CHR '' '', c] \<in> set (concat (map day_texts [1..31]))) ''123456789''"
  by code_simp+

lemma rx_lang_d:
  assumes "g \<in> rx_lang rx_d"
  shows "\<exists>d. 1 \<le> d \<and> d \<le> 31 \<and> g \<in> set (day_texts d)"
proof -
  have "g \<in> rx_lang (Seq (Lit CHR ''3'') (Range CHR ''0'' CHR ''1'')) \<or>
        g \<in> rx_lang (Seq (Range CHR ''1'' CHR ''2'') Digit) \<or>
        g \<in> rx_lang (Seq (Lit CHR ''0'') (Range CHR ''1'' CHR ''9'')) \<or>
        g \<in> rx_lang (Range CHR ''1'' CHR ''9'') \<or>
        g \<in> rx_lang (Seq (Lit CHR '' '') (Range CHR ''1'' CHR ''9''))"
    using assms by (simp add: rx_d_def)
  then have "g \<in> set (concat (map day_texts [1..31]))"
  proof (elim disjE)
    assume "g \<in> rx_lang (Seq (Lit CHR ''3'') (Range CHR ''0'' CHR ''1''))"
    then obtain c where "g = [CHR ''3'', c]" "in_range CHR ''0'' CHR ''1'' c" by auto
    then show ?thesis
      using in_range_0_1_cases[of c] day_shapes(1) unfolding list_all_iff by blast
  next
    assume "g \<in> rx_lang (Seq (Range CHR ''1'' CHR ''2'') Digit)"
    then obtain c e where "g = [c, e]" "in_range CHR ''1'' CHR ''2'' c" "is_digit e" by auto
    then show ?thesis
      using in_range_1_2_cases[of c] is_digit_cases2[of e] day_shapes(2)
      unfolding list_all_iff by blast
  next
    assume "g \<in> rx_lang (Seq (Lit CHR ''0'') (Range CHR ''1'' CHR ''9''))"
    then obtain c where "g = [CHR ''0'', c]" "in_range CHR ''1'' CHR ''9'' c" by auto
    then show ?thesis
      using in_range_1_9_cases[of c] day_shapes(3) unfolding list_all_iff by blast
  next
    assume "g \<in> rx_lang (Range CHR ''1'' CHR ''9'')"
    then obtain c where "g = [c]" "in_range CHR ''1'' CHR ''9'' c" by auto
    then show ?thesis
      using in_range_1_9_cases[of c] day_shapes(4) unfolding list_all_iff by blast
  next
    assume "g \<in> rx_lang (Seq (Lit CHR '' '') (Range CHR ''1'' CHR ''9''))"
    then obtain c where "g = [CHR '' '', c]" "in_range CHR ''1'' CHR ''9'' c" by auto
    then show ?thesis
      using in_range_1_9_cases[of c] day_shapes(5) unfolding list_all_iff by blast
  qed
  then show ?thesis
    by (rule day_text_member)
qed

lemma digit_split:
  fixes k e :: int
  assumes "0 \<le> e" "e \<le> 9"
  shows "(10 * k + e) div 10 = k" "(10 * k + e) mod 10 = e"
  using assms by simp_all

lemma digits4_year_text:
  assumes "is_digit a" "is_digit b" "is_digit c" "is_digit e"
  shows "\<exists>y. 0 \<le> y \<and> y \<le> 9999 \<and> year_text y = [a, b, c, e] \<and> py_int [a, b, c, e] = Inr y"
proof -
  define a' b' c' e' where "a' = digit_value a" and "b' = digit_value b"
    and "c' = digit_value c" and "e' = digit_value e"
  have d: "0 \<le> a'" "a' \<le> 9" "0 \<le> b'" "b' \<le> 9" "0 \<le> c'" "c' \<le> 9" "0 \<le> e'" "e' \<le> 9"
    and ch: "digit_char a' = a" "digit_char b' = b" "digit_char c' = c" "digit_char e' = e"
    using assms is_digit_digit_char unfolding a'_def b'_def c'_def e'_def by blast+
  define y where "y = 10 * (10 * (10 * a' + b') + c') + e'"
  have y1: "y div 10 = 10 * (10 * a' + b') + c'" "y mod 10 = e'"
    unfolding y_def using digit_split[OF d(7,8)] by blast+
  have y2: "(10 * (10 * a' + b') + c') div 10 = 10 * a' + b'"
    "(10 * (10 * a' + b') + c') mod 10 = c'"
    using digit_split[OF d(5,6)] by blast+
  have y3: "(10 * a' + b') div 10 = a'" "(10 * a' + b') mod 10 = b'"
    using digit_split[OF d(3,4)] by blast+
  have "year_text y = [a, b, c, e]"
    by (simp only: year_text_def y1 y2 y3 ch)
  moreover have "0 \<le> y" "y \<le> 9999"
    using d unfolding y_def by simp_all
  moreover have "py_int [a, b, c, e] = Inr y"
    using py_int_digits4[OF assms] unfolding y_def a'_def b'_def c'_def e'_def .
  ultimately show ?thesis by blast
qed

lemma format_regex_matches_sound:
  assumes "(gY, gm, gd, r) \<in> set (format_regex_matches s)"
  shows "s = gY @ CHR ''-'' # gm @ CHR ''-'' # gd @ r \<and>
         gY \<in> rx_lang rx_Y \<and> gm \<in> rx_lang rx_m \<and> gd \<in> rx_lang rx_d"
proof -
  obtain r1 r2 r3 r4 where
    g1: "(gY, r1) \<in> set (rx_group rx_Y s)" and
    d1: "r2 \<in> set (rx_match (Lit CHR ''-'') r1)" and
    g2: "(gm, r3) \<in> set (rx_group rx_m r2)" and
    d2: "r4 \<in> set (rx_match (Lit CHR ''-'') r3)" and
    g3: "(gd, r) \<in> set (rx_group rx_d r4)"
    using assms unfolding format_regex_matches_def by auto
  have "r1 = CHR ''-'' # r2" "r3 = CHR ''-'' # r4"
    using d1 d2 by (auto split: list.splits if_splits)
  then show ?thesis
    using rx_group_sound[OF g1] rx_group_sound[OF g2] rx_group_sound[OF g3] by simp
qed

lemma strptime_Inr_cases:
  assumes "strptime s = Inr dt"
  obtains gY gm gd y m d where
    "format_regex_match s = Some (gY, gm, gd, [])"
    "py_int gY = Inr y" "py_int gm = Inr m" "py_int gd = Inr d"
    "check_date_fields y m d = Inr (y, m, d)"
    "dt = \<lparr>year = y, month = m, day = d, hour = 0, minute = 0, second = 0, microsecond = 0\<rparr>"
proof (cases "format_regex_match s")
  case None
  then show ?thesis using assms by (simp add: strptime_def)
next
  case (Some t)
  obtain gY gm gd rest where t: "t = (gY, gm, gd, rest)" by (cases t) auto
  have rest: "rest = []"
    using assms Some t by (auto simp: strptime_def split: if_splits)
  obtain y where y: "py_int gY = Inr y"
    using assms Some t rest by (cases "py_int gY") (auto simp: strptime_def)
  obtain m where m: "py_int gm = Inr m"
    using assms Some t rest y by (cases "py_int gm") (auto simp: strptime_def)
  obtain d where d: "py_int gd = Inr d"
    using assms Some t rest y m by (cases "py_int gd") (auto simp: strptime_def)
  obtain r where r: "check_date_fields y m d = Inr r"
    using assms Some t rest y m d by (cases "check_date_fields y m d") (auto simp: strptime_def)
  then have r': "r = (y, m, d)" using check_date_fields_Inr by blast
  have "dt = \<lparr>year = y, month = m, day = d, hour = 0, minute = 0, second = 0, microsecond = 0\<rparr>"
    using assms Some t rest y m d r r' by (simp add: strptime_def)
  then show ?thesis
    using that[of gY gm gd y m d] Some t rest y m d r r' by simp
qed

lemma strptime_Inr_date_text:
  assumes "strptime s = Inr dt"
  shows "valid_date (year dt) (month dt) (day dt) \<and>
         s \<in> set (date_texts (year dt) (month dt) (day dt))"
proof -
  obtain gY gm gd y m d where
    fm: "format_regex_match s = Some (gY, gm, gd, [])" and
    py: "py_int gY = Inr y" "py_int gm = Inr m" "py_int gd = Inr d" and
    cd: "check_date_fields y m d = Inr (y, m, d)" and
    dt: "dt = \<lparr>year = y, month = m, day = d, hour = 0, minute = 0, second = 0,
                microsecond = 0\<rparr>"
    using strptime_Inr_cases[OF assms] by metis
  have "(gY, gm, gd, []) \<in> set (format_regex_matches s)"
    using fm by (auto simp: format_regex_match_def split: list.splits)
  then have s: "s = gY @ CHR ''-'' # gm @ CHR ''-'' # gd"
    and l: "gY \<in> rx_lang rx_Y" "gm \<in> rx_lang rx_m" "gd \<in> rx_lang rx_d"
    using format_regex_matches_sound by fastforce+
  obtain a b c e where "gY = [a, b, c, e]" "is_digit a" "is_digit b" "is_digit c" "is_digit e"
    using rx_lang_Y[OF l(1)] by blast
  then have gY: "gY = year_text y"
    using digits4_year_text[of a b c e] py(1) by auto
  obtain m' where m': "1 \<le> m'" "m' \<le> 12" "gm \<in> set (month_texts m')"
    using rx_lang_m[OF l(2)] by blast
  then have gm: "gm \<in> set (month_texts m)"
    using py_int_month_text[OF m'] py(2) by simp
  obtain d' where d': "1 \<le> d'" "d' \<le> 31" "gd \<in> set (day_texts d')"
    using rx_lang_d[OF l(3)] by blast
  then have gd: "gd \<in> set (day_texts d)"
    using day_text_props(2)[OF d'] py(3) by simp
  have v: "valid_date y m d"
    using check_date_fields_Inr[OF cd] days_in_month_eq[of m y] by (simp add: valid_date_def)
  have "s \<in> set (date_texts y m d)"
    unfolding date_texts_iff using s gY gm gd by blast
  then show ?thesis using v dt by simp
qed

lemma strptime_accepts_iff:
  "strptime s = Inr dt \<longleftrightarrow>
     midnight dt \<and> valid_date (year dt) (month dt) (day dt) \<and>
     s \<in> set (date_texts (year dt) (month dt) (day dt))"
proof
  assume "strptime s = Inr dt"
  then show "midnight dt \<and> valid_date (year dt) (month dt) (day dt) \<and>
     s \<in> set (date_texts (year dt) (month dt) (day dt))"
    using strptime_Inr strptime_Inr_date_text by blast
next
  assume a: "midnight dt \<and> valid_date (year dt) (month dt) (day dt) \<and>
     s \<in> set (date_texts (year dt) (month dt) (day dt))"
  then have "strptime s = Inr \<lparr>year = year dt, month = month dt, day = day dt, hour = 0,
      minute = 0, second = 0, microsecond = 0\<rparr>"
    using strptime_date_text by blast
  moreover have "dt = \<lparr>year = year dt, month = month dt, day = day dt, hour = 0,
      minute = 0, second = 0, microsecond = 0\<rparr>"
    using a by (simp add: midnight_def)
  ultimately show "strptime s = Inr dt" by simp
qed

lemma iso_text_in_date_texts: "iso_text y m d \<in> set (date_texts y m d)"
  by (simp add: iso_text_def date_texts_def month_texts_def day_texts_def)

section \<open>The two outcomes of create_features\<close>

lemma create_features_parsed:
  assumes "strptime date_str = Inr dt" "wf_datetime (start_date g)"
  shows "\<exists>td. datetime_sub dt (start_date g) = Inr td \<and>
     create_features g date_str stage =
       Inr (Some \<lparr>Stage = [stage], DayOfYear = [tm_yday dt], DaysSinceStart = [days td]\<rparr>,
            None)"
proof -
  have "wf_datetime dt" using strptime_Inr[OF assms(1)] by simp
  then obtain td where "datetime_sub dt (start_date g) = Inr td"
    using datetime_sub_total assms(2) by blast
  then show ?thesis using assms(1) by (simp add: create_features_def)
qed

lemma create_features_rejected:
  assumes "strptime date_str = Inl e"
  shows "create_features g date_str stage =
           Inr (None, Some ''Invalid date format. Please use YYYY-MM-DD.'')"
  using assms strptime_Inl[OF assms] by (simp add: create_features_def)

lemma wf_date_2024_01_01: "wf_datetime date_2024_01_01 \<and> midnight date_2024_01_01"
  by code_simp

subsection \<open>Occurrence of a text in another\<close>

lemma starts_with_iff: "starts_with s p \<longleftrightarrow> (\<exists>r. s = p @ r)"
  by (induction s p rule: starts_with.induct) auto

lemma contains_iff: "contains s p \<longleftrightarrow> (\<exists>l r. s = l @ p @ r)"
proof (induction s)
  case Nil
  show ?case by auto
next
  case (Cons c cs)
  show ?case
  proof
    assume "contains (c # cs) p"
    then consider "starts_with (c # cs) p" | "contains cs p" by auto
    then show "\<exists>l r. c # cs = l @ p @ r"
    proof cases
      case 1
      then obtain r where "c # cs = p @ r" using starts_with_iff by blast
      then have "c # cs = [] @ p @ r" by simp
      then show ?thesis by blast
    next
      case 2
      then obtain l r where "cs = l @ p @ r" using Cons.IH by blast
      then have "c # cs = (c # l) @ p @ r" by simp
      then show ?thesis by blast
    qed
  next
    assume "\<exists>l r. c # cs = l @ p @ r"
    then obtain l r where lr: "c # cs = l @ p @ r" by blast
    show "contains (c # cs) p"
    proof (cases l)
      case Nil
      then have "starts_with (c # cs) p" using lr starts_with_iff by auto
      then show ?thesis by simp
    next
      case (Cons x xs)
      then have "cs = xs @ p @ r" using lr by simp
      then have "contains cs p" using Cons.IH by blast
      then show ?thesis by simp
    qed
  qed
qed

section \<open>The claims of the specification\<close>

subsection \<open>Day of the year\<close>

text \<open>
  Claim C1.  For every date string that parses as a valid calendar date and for every stage
  string, in or outside the enumerated stages, \<^verbatim>\<open>create_features\<close> succeeds, and the
  \<^verbatim>\<open>DayOfYear\<close> column of the frame it returns holds the 1-based ordinal day of that
  date within its calendar year, a number between 1 and the length of the year.  The
  date that the parse returns is a calendar date, and the one that the string writes.
  The global \<^verbatim>\<open>start_date\<close> is a datetime object.
\<close>

theorem create_features_day_of_year:
  assumes "strptime date_str = Inr dt" and "wf_datetime (start_date g)"
  shows "valid_date (year dt) (month dt) (day dt) \<and>
         date_str \<in> set (date_texts (year dt) (month dt) (day dt)) \<and>
         (\<exists>df. create_features g date_str stage = Inr (Some df, None) \<and>
            DayOfYear df = [ordinal_day_in_year (year dt) (month dt) (day dt)]) \<and>
         1 \<le> ordinal_day_in_year (year dt) (month dt) (day dt) \<and>
         ordinal_day_in_year (year dt) (month dt) (day dt) \<le> year_length (year dt)"
proof -
  have wf: "wf_datetime dt"
    using strptime_Inr[OF assms(1)] by simp
  then have "tm_yday dt = ordinal_day_in_year (year dt) (month dt) (day dt)"
    by (intro tm_yday_eq) (simp_all add: wf_datetime_def)
  then show ?thesis
    using create_features_parsed[OF assms, of stage] tm_yday_bounds[OF wf]
      strptime_Inr_date_text[OF assms(1)] by auto
qed

theorem create_features_day_of_year_witness:
  "strptime ''2024-12-31'' =
     Inr \<lparr>year = 2024, month = 12, day = 31, hour = 0, minute = 0, second = 0,
          microsecond = 0\<rparr> \<and>
   wf_datetime (start_date example_globals) \<and>
   (\<exists>df. create_features example_globals ''2024-12-31'' ''Flowering'' = Inr (Some df, None) \<and>
      DayOfYear df = [366])"
proof -
  have p: "strptime ''2024-12-31'' =
     Inr \<lparr>year = 2024, month = 12, day = 31, hour = 0, minute = 0, second = 0,
          microsecond = 0\<rparr>"
    by code_simp
  have w: "wf_datetime (start_date example_globals)"
    by code_simp
  have o: "ordinal_day_in_year 2024 12 31 = 366"
    by code_simp
  show ?thesis
    using p w o create_features_day_of_year[OF p w, of "''Flowering''"] by auto
qed

subsection \<open>Days since the reference date\<close>

text \<open>
  Claim C2.  For every valid date, the \<^verbatim>\<open>DaysSinceStart\<close> column holds the signed
  number of whole days from the reference start date to that date: negative when the date
  precedes the reference date, zero when it is the reference date, positive when it comes
  after.  The reference start date is a calendar date, that is a datetime object whose
  time of day is zero.
\<close>

theorem create_features_days_since_start:
  assumes "strptime date_str = Inr dt"
    and "wf_datetime (start_date g)" and "midnight (start_date g)"
  shows "\<exists>df n. create_features g date_str stage = Inr (Some df, None) \<and>
           DaysSinceStart df = [n] \<and>
           n = day_number dt - day_number (start_date g) \<and>
           (n < 0 \<longleftrightarrow> date_before dt (start_date g)) \<and>
           (n = 0 \<longleftrightarrow> same_date dt (start_date g)) \<and>
           (0 < n \<longleftrightarrow> date_before (start_date g) dt)"
proof -
  have dt: "wf_datetime dt" "midnight dt"
    using strptime_Inr[OF assms(1)] by simp_all
  have sub: "datetime_sub dt (start_date g) =
      Inr \<lparr>days = toordinal dt - toordinal (start_date g), seconds = 0, microseconds = 0\<rparr>"
    using datetime_sub_midnight[OF dt assms(2,3)] .
  have cf: "create_features g date_str stage =
      Inr (Some \<lparr>Stage = [stage], DayOfYear = [tm_yday dt],
                 DaysSinceStart = [toordinal dt - toordinal (start_date g)]\<rparr>, None)"
    using create_features_parsed[OF assms(1,2), of stage] sub by auto
  have eq: "toordinal dt - toordinal (start_date g) = day_number dt - day_number (start_date g)"
    using toordinal_day_number[OF dt(1)] toordinal_day_number[OF assms(2)] by simp
  have ord: "(toordinal dt - toordinal (start_date g) < 0 \<longleftrightarrow> date_before dt (start_date g)) \<and>
      (toordinal dt - toordinal (start_date g) = 0 \<longleftrightarrow> same_date dt (start_date g)) \<and>
      (0 < toordinal dt - toordinal (start_date g) \<longleftrightarrow> date_before (start_date g) dt)"
    using toordinal_order[OF dt(1) assms(2)] by auto
  show ?thesis
    using cf eq ord by auto
qed

theorem create_features_days_since_start_witness:
  "strptime ''2023-12-25'' =
     Inr \<lparr>year = 2023, month = 12, day = 25, hour = 0, minute = 0, second = 0,
          microsecond = 0\<rparr> \<and>
   wf_datetime (start_date example_globals) \<and> midnight (start_date example_globals) \<and>
   (\<exists>df. create_features example_globals ''2023-12-25'' ''Seedling'' = Inr (Some df, None) \<and>
      DaysSinceStart df = [- 7])"
proof -
  have p: "strptime ''2023-12-25'' =
     Inr \<lparr>year = 2023, month = 12, day = 25, hour = 0, minute = 0, second = 0,
          microsecond = 0\<rparr>"
    by code_simp
  have w: "wf_datetime (start_date example_globals)"
    by code_simp
  have m: "midnight (start_date example_globals)"
    by code_simp
  have c: "create_features example_globals ''2023-12-25'' ''Seedling'' =
      Inr (Some \<lparr>Stage = [''Seedling''], DayOfYear = [359], DaysSinceStart = [- 7]\<rparr>, None)"
    by code_simp
  show ?thesis
    using p w m c create_features_days_since_start[OF p w m, of "''Seedling''"] by simp
qed

subsection \<open>Dates that do not parse\<close>




subsection \<open>The first scenario of the specification\<close>

text \<open>
  Claim C4.  With the reference start date 2024-01-01, \<^verbatim>\<open>create_features\<close> on the date
  \<^verbatim>\<open>"2024-03-15"\<close> and the stage \<^verbatim>\<open>"Seedling"\<close> succeeds with exactly the record
  Stage \<^verbatim>\<open>"Seedling"\<close>, DayOfYear 75, DaysSinceStart 74, whatever the classifier is.
\<close>

theorem scenario_2024_03_15_seedling:
  "create_features \<lparr>model = mdl, start_date = date_2024_01_01\<rparr> ''2024-03-15'' ''Seedling'' =
     Inr (Some \<lparr>Stage = [''Seedling''], DayOfYear = [75], DaysSinceStart = [74]\<rparr>, None)"
  by code_simp

theorem scenario_2024_03_15_seedling_witness:
  "create_features example_globals ''2024-03-15'' ''Seedling'' =
     Inr (Some \<lparr>Stage = [''Seedling''], DayOfYear = [75], DaysSinceStart = [74]\<rparr>, None)"
  using scenario_2024_03_15_seedling[of stub_model] by (simp add: example_globals_def)

subsection \<open>Missing input\<close>

text \<open>
  Claim C5.  For every form submission in which the date field or the stage field is
  empty (absent or the empty string), or both are, the \<^verbatim>\<open>predict\<close> handler renders the
  page with the missing-input message and makes no call: neither \<^verbatim>\<open>create_features\<close>
  nor the classifier is invoked.
\<close>

theorem predict_missing_input:
  assumes "date_input req = None \<or> date_input req = Some [] \<or>
           stage_input req = None \<or> stage_input req = Some []"
  shows "predict g req =
           ([], Inr \<lparr>stages = UNIQUE_STAGES,
                     prediction_text = ''Error: Please provide both date and stage.'',
                     date_val = date_input req, stage_val = stage_input req\<rparr>)"
  using assms by (auto simp: predict_def)

theorem predict_missing_input_witness:
  "predict example_globals \<lparr>date_input = Some ''2024-03-15'', stage_input = Some []\<rparr> =
     ([], Inr \<lparr>stages = UNIQUE_STAGES,
               prediction_text = ''Error: Please provide both date and stage.'',
               date_val = Some ''2024-03-15'', stage_val = Some []\<rparr>)"
  using predict_missing_input[of "\<lparr>date_input = Some ''2024-03-15'', stage_input = Some []\<rparr>"
      example_globals]
  by simp

subsection \<open>The stage is not checked\<close>

text \<open>
  Claim C6.  For every valid date and every stage string whatsoever, enumerated or not,
  \<^verbatim>\<open>create_features\<close> does not reject the stage: it puts it unchanged in the
  \<^verbatim>\<open>Stage\<close> column of the frame, and that frame is the one the handler gives to the
  classifier.
\<close>

theorem stage_passes_through:
  assumes "strptime date_str = Inr dt" and "wf_datetime (start_date g)"
  shows "\<exists>df. create_features g date_str stage = Inr (Some df, None) \<and>
           Stage df = [stage] \<and>
           (stage \<noteq> [] \<longrightarrow>
              fst (predict g \<lparr>date_input = Some date_str, stage_input = Some stage\<rparr>) =
                [CallCreateFeatures date_str stage, CallModelPredict (Some df)])"
proof -
  obtain td :: timedelta where cf: "create_features g date_str stage =
      Inr (Some \<lparr>Stage = [stage], DayOfYear = [tm_yday dt], DaysSinceStart = [days td]\<rparr>, None)"
    using create_features_parsed[OF assms, of stage] by blast
  have ne: "date_str \<noteq> []"
    using assms(1) strptime_empty by auto
  show ?thesis
    using cf ne by (auto simp: predict_def split: sum.splits list.splits)
qed

theorem stage_passes_through_witness:
  "strptime ''2024-03-15'' =
     Inr \<lparr>year = 2024, month = 3, day = 15, hour = 0, minute = 0, second = 0,
          microsecond = 0\<rparr> \<and>
   wf_datetime (start_date example_globals) \<and>
   (\<exists>df. create_features example_globals ''2024-03-15'' ''Not a stage'' = Inr (Some df, None) \<and>
      Stage df = [''Not a stage''] \<and>
      fst (predict example_globals
             \<lparr>date_input = Some ''2024-03-15'', stage_input = Some ''Not a stage''\<rparr>) =
        [CallCreateFeatures ''2024-03-15'' ''Not a stage'', CallModelPredict (Some df)])"
proof -
  have p: "strptime ''2024-03-15'' =
     Inr \<lparr>year = 2024, month = 3, day = 15, hour = 0, minute = 0, second = 0,
          microsecond = 0\<rparr>"
    by code_simp
  have w: "wf_datetime (start_date example_globals)"
    by code_simp
  show ?thesis
    using p w stage_passes_through[OF p w, of "''Not a stage''"] by simp
qed

subsection \<open>Determinism\<close>



subsection \<open>The message for an invalid date\<close>

text \<open>
  Claim C8, as stated: for every form submission whose date string fails to parse, the
  message that the \<^verbatim>\<open>predict\<close> handler renders contains the submitted date string.
  It does not: for the date \<^verbatim>\<open>"15-03-2024"\<close> the message is the fixed text of
  \<^verbatim>\<open>create_features\<close> behind \<^verbatim>\<open>"Error: "\<close>, in which that date does not occur.
\<close>

theorem invalid_date_message_lacks_date:
  "strptime ''15-03-2024'' = Inl ValueError \<and>
   snd (predict example_globals
          \<lparr>date_input = Some ''15-03-2024'', stage_input = Some ''Seedling''\<rparr>) =
     Inr \<lparr>stages = UNIQUE_STAGES,
          prediction_text = ''Error: Invalid date format. Please use YYYY-MM-DD.'',
          date_val = Some ''15-03-2024'', stage_val = Some ''Seedling''\<rparr> \<and>
   \<not> contains ''Error: Invalid date format. Please use YYYY-MM-DD.'' ''15-03-2024''"
  by code_simp

text \<open>
  Claim C8, amended.  For every form submission with both fields filled in whose date
  string fails to parse, the handler calls \<^verbatim>\<open>create_features\<close> only and renders the
  page with the fixed message \<^verbatim>\<open>"Error: Invalid date format. Please use YYYY-MM-DD."\<close>,
  the same for every such date; the submitted date and stage go back to the template
  unchanged as \<^verbatim>\<open>date_val\<close> and \<^verbatim>\<open>stage_val\<close>.
\<close>

theorem invalid_date_page:
  assumes "date_input req = Some date_str" and "stage_input req = Some stage"
    and "date_str \<noteq> []" and "stage \<noteq> []" and "strptime date_str = Inl e"
  shows "predict g req =
           ([CallCreateFeatures date_str stage],
            Inr \<lparr>stages = UNIQUE_STAGES,
                 prediction_text = ''Error: Invalid date format. Please use YYYY-MM-DD.'',
                 date_val = Some date_str, stage_val = Some stage\<rparr>)"
  using assms(1-4) create_features_rejected[OF assms(5), of g stage]
  by (simp add: predict_def)

theorem invalid_date_page_witness:
  "strptime ''2024-02-30'' = Inl ValueError \<and>
   predict example_globals \<lparr>date_input = Some ''2024-02-30'', stage_input = Some ''Maturity''\<rparr> =
     ([CallCreateFeatures ''2024-02-30'' ''Maturity''],
      Inr \<lparr>stages = UNIQUE_STAGES,
           prediction_text = ''Error: Invalid date format. Please use YYYY-MM-DD.'',
           date_val = Some ''2024-02-30'', stage_val = Some ''Maturity''\<rparr>)"
proof -
  have p: "strptime ''2024-02-30'' = Inl ValueError"
    by code_simp
  show ?thesis
    using p invalid_date_page[of "\<lparr>date_input = Some ''2024-02-30'',
        stage_input = Some ''Maturity''\<rparr>" "''2024-02-30''" "''Maturity''" ValueError
        example_globals]
    by simp
qed

subsection \<open>Totality\<close>

text \<open>
  Claim C9.  For every pair of string inputs \<^verbatim>\<open>create_features\<close> returns, and no
  exception leaves it: the result is either a fully populated one-row frame with the error
  \<^verbatim>\<open>None\<close>, or the frame \<^verbatim>\<open>None\<close> with a non-empty error message, and never both.
  The global \<^verbatim>\<open>start_date\<close> is a datetime object.
\<close>

theorem create_features_total:
  assumes "wf_datetime (start_date g)"
  shows "((\<exists>df. create_features g date_str stage = Inr (Some df, None) \<and>
             length (Stage df) = 1 \<and> length (DayOfYear df) = 1 \<and>
             length (DaysSinceStart df) = 1) \<or>
          (\<exists>msg. create_features g date_str stage = Inr (None, Some msg) \<and> msg \<noteq> [])) \<and>
         \<not> ((\<exists>df. create_features g date_str stage = Inr (Some df, None)) \<and>
            (\<exists>msg. create_features g date_str stage = Inr (None, Some msg)))"
proof (cases "strptime date_str")
  case (Inl e)
  show ?thesis
    using create_features_rejected[OF Inl, of g stage] by simp
next
  case (Inr dt)
  show ?thesis
    using create_features_parsed[OF Inr assms, of stage] by auto
qed

theorem create_features_total_witness:
  "wf_datetime (start_date example_globals) \<and>
   create_features example_globals ''2024-03-15'' ''Seedling'' =
     Inr (Some \<lparr>Stage = [''Seedling''], DayOfYear = [75], DaysSinceStart = [74]\<rparr>, None) \<and>
   create_features example_globals ''yesterday'' ''Seedling'' =
     Inr (None, Some ''Invalid date format. Please use YYYY-MM-DD.'')"
proof -
  have w: "wf_datetime (start_date example_globals)"
    by code_simp
  have a: "create_features example_globals ''2024-03-15'' ''Seedling'' =
      Inr (Some \<lparr>Stage = [''Seedling''], DayOfYear = [75], DaysSinceStart = [74]\<rparr>, None)"
    by code_simp
  have b: "create_features example_globals ''yesterday'' ''Seedling'' =
      Inr (None, Some ''Invalid date format. Please use YYYY-MM-DD.'')"
    by code_simp
  show ?thesis
    using w a b create_features_total[OF w, of "''2024-03-15''" "''Seedling''"]
      create_features_total[OF w, of "''yesterday''" "''Seedling''"]
    by simp
qed

subsection \<open>Dates without leading zeros\<close>

text \<open>
  Claim C10.  There are date strings not in zero-padded YYYY-MM-DD form that
  \<^verbatim>\<open>create_features\<close> accepts, \<^verbatim>\<open>"2024-3-5"\<close> for one, which parses to the date of
  \<^verbatim>\<open>"2024-03-05"\<close>: the error branch is taken exactly when the parse with the format
  \<^verbatim>\<open>'%Y-%m-%d'\<close> fails, and that parse reads a month and a day written without a
  leading zero: every text of a valid date parses to what its YYYY-MM-DD form parses to.
  The global \<^verbatim>\<open>start_date\<close> is a datetime object.
\<close>

theorem unpadded_date_is_accepted:
  assumes "wf_datetime (start_date g)"
  shows "\<not> iso_form ''2024-3-5'' \<and>
         (\<exists>df. create_features g ''2024-3-5'' stage = Inr (Some df, None) \<and>
            DayOfYear df = [65]) \<and>
         ((\<exists>msg. create_features g date_str stage = Inr (None, Some msg)) \<longleftrightarrow>
          (\<exists>e. strptime date_str = Inl e)) \<and>
         (valid_date y m d \<longrightarrow>
            (\<forall>s \<in> set (date_texts y m d). strptime s = strptime (iso_text y m d)))"
proof -
  have n: "\<not> iso_form ''2024-3-5''"
    by code_simp
  have p: "strptime ''2024-3-5'' =
     Inr \<lparr>year = 2024, month = 3, day = 5, hour = 0, minute = 0, second = 0, microsecond = 0\<rparr>"
    by code_simp
  have yd: "tm_yday \<lparr>year = 2024, month = 3, day = 5, hour = 0, minute = 0, second = 0,
     microsecond = 0\<rparr> = 65"
    by code_simp
  have acc: "\<exists>df. create_features g ''2024-3-5'' stage = Inr (Some df, None) \<and>
      DayOfYear df = [65]"
    using create_features_parsed[OF p assms, of stage] yd by auto
  have iff: "(\<exists>msg. create_features g date_str stage = Inr (None, Some msg)) \<longleftrightarrow>
      (\<exists>e. strptime date_str = Inl e)"
  proof (cases "strptime date_str")
    case (Inl e)
    then show ?thesis
      using create_features_rejected[OF Inl, of g stage] by simp
  next
    case (Inr dt)
    then show ?thesis
      using create_features_parsed[OF Inr assms, of stage] by auto
  qed
  have tol: "valid_date y m d \<longrightarrow>
      (\<forall>s \<in> set (date_texts y m d). strptime s = strptime (iso_text y m d))"
    using strptime_date_text[of y m d] iso_text_in_date_texts[of y m d] by simp
  show ?thesis
    using n acc iff tol by blast
qed

theorem unpadded_date_is_accepted_witness:
  "wf_datetime (start_date example_globals) \<and> valid_date 2024 3 5 \<and>
   ''2024-3-5'' \<in> set (date_texts 2024 3 5) \<and> iso_text 2024 3 5 = ''2024-03-05'' \<and>
   strptime ''2024-3-5'' = strptime ''2024-03-05'' \<and>
   create_features example_globals ''2024-3-5'' ''Seedling'' =
     Inr (Some \<lparr>Stage = [''Seedling''], DayOfYear = [65], DaysSinceStart = [64]\<rparr>, None)"
proof -
  have w: "wf_datetime (start_date example_globals)"
    by code_simp
  have v: "valid_date 2024 3 5"
    by code_simp
  have t: "''2024-3-5'' \<in> set (date_texts 2024 3 5)"
    by code_simp
  have i: "iso_text 2024 3 5 = ''2024-03-05''"
    by code_simp
  have c: "create_features example_globals ''2024-3-5'' ''Seedling'' =
     Inr (Some \<lparr>Stage = [''Seedling''], DayOfYear = [65], DaysSinceStart = [64]\<rparr>, None)"
    by code_simp
  show ?thesis
    using w v t i c unpadded_date_is_accepted[OF w, of "''Seedling''" "''2024-3-5''" 2024 3 5]
    by auto
qed

end
